theory Spec2Isabelle
  imports Main "HOL-Library.AList"
begin

section \<open>Episodic model-based RL client: data model\<close>

text \<open>
  The embedding follows \<^verbatim>\<open>scripts/episodic_mbrl_client.py\<close>. Task names and
  task states are Python strings; the states the program writes are
  \<^verbatim>\<open>'init'\<close>, \<^verbatim>\<open>'compile_polopt'\<close>, \<^verbatim>\<open>'update_polopt'\<close>, \<^verbatim>\<open>'ready'\<close> and
  \<^verbatim>\<open>'done'\<close>. Numeric arrays (trajectories, policy parameters) are opaque values
  of a type variable \<open>'a\<close>.
\<close>

type_synonym name = string

datatype error =
    NameError string
  | KeyError string
  | RobotIOError
  | PersistenceError
  | OptimizationError
  | RemoteServiceError
  | UnpicklingError
  | TypeError
  | OSError string

text \<open>The two optimization strategies a task can be given as \<^verbatim>\<open>polopt_fn\<close>.\<close>

datatype polopt = Mc_pilco_polopt | Http_polopt

text \<open>
  A learned policy, as far as the client looks at it: whether it has the attribute
  \<^verbatim>\<open>params\<close>, and what \<^verbatim>\<open>get_params(symbolic=False)\<close> returns.
\<close>

record 'a policy =
  has_params :: bool
  params :: "'a list"

text \<open>The policy acting in an episode: \<^verbatim>\<open>RandPolicy(...)\<close> or \<^verbatim>\<open>spec['policy']\<close>.\<close>

datatype 'a acting = RandPolicy | Learned "'a policy"

text \<open>
  Modelled from the spec: \<^verbatim>\<open>ExperienceDataset\<close> of the kusanagi library is not
  part of the sources. It owns an ordered sequence of episodes and an ordered sequence
  of policy parameters, one entry per appended episode (the parameters in effect during
  collection); \<^verbatim>\<open>append_episode\<close> appends to both.
\<close>

record 'a experience =
  episodes :: "'a list"
  policy_parameters :: "'a list list"

definition append_episode :: "'a \<Rightarrow> 'a list \<Rightarrow> 'a experience \<Rightarrow> 'a experience" where
  "append_episode traj pol_params ex =
     ex\<lparr>episodes := episodes ex @ [traj],
        policy_parameters := policy_parameters ex @ [pol_params]\<rparr>"

definition n_episodes :: "'a experience \<Rightarrow> nat" where
  "n_episodes ex = length (episodes ex)"

datatype loss = Loss

text \<open>
  Modelled from the spec: the optimizer of the kusanagi library is not part of the
  sources. Its attribute \<^verbatim>\<open>loss_fn\<close> is \<^verbatim>\<open>None\<close> until \<^verbatim>\<open>set_objective\<close> installs
  the compiled objective, whose presence is cached from then on.
\<close>

record optimizer =
  loss_fn :: "loss option"

definition set_objective :: "optimizer \<Rightarrow> optimizer" where
  "set_objective opt = opt\<lparr>loss_fn := Some Loss\<rparr>"

text \<open>
  The entries of a task specification that the scheduling code reads or writes. The
  keys are taken to be present (a well-formed configuration); \<^verbatim>\<open>polopt_fn\<close> and
  \<^verbatim>\<open>extra_in\<close> are read with \<^verbatim>\<open>get\<close> and may be absent. Of the cost function
  the names of the free inputs of its graph (what line 99 to 102 collect) and the keys of
  \<^verbatim>\<open>task_spec['cost']['params']\<close>, if that entry exists, are kept.
\<close>

record 'a task_spec =
  initial_random_trials :: int
  n_opt :: int
  policy :: "'a policy"
  experience :: "'a experience"
  optimizer :: optimizer
  polopt_fn :: "polopt option"
  cost_inputs :: "string list"
  cost_params :: "string list option"
  extra_in :: "string list option"

text \<open>
  What happens in the program is recorded as a sequence of events, so that properties
  of whole runs can be stated.
\<close>

datatype event =
    Wrote name string
  | Trained name
  | Compiled name
  | Minimized name
  | Remote_optimized name
  | Put name
  | Episode name bool
  | Started name polopt
  | Job_died name error

text \<open>
  The shared state of the process: the dictionary \<^verbatim>\<open>task_state\<close> (an association
  list with unique keys), the FIFO queue \<^verbatim>\<open>tasks\<close> (head is the next entry out) and
  the events so far.
\<close>

record 'a world =
  task_state :: "(name \<times> string) list"
  tasks :: "(name \<times> 'a task_spec) list"
  events :: "event list"

definition log_event :: "event \<Rightarrow> 'a world \<Rightarrow> 'a world" where
  "log_event e w = w\<lparr>events := events w @ [e]\<rparr>"

text \<open>\<^verbatim>\<open>task_state[task_name] = s\<close>\<close>

definition set_state :: "name \<Rightarrow> string \<Rightarrow> 'a world \<Rightarrow> 'a world" where
  "set_state n s w =
     w\<lparr>task_state := AList.update n s (task_state w), events := events w @ [Wrote n s]\<rparr>"

text \<open>\<^verbatim>\<open>task_queue.put((task_name, task_spec))\<close>\<close>

definition put :: "name \<Rightarrow> 'a task_spec \<Rightarrow> 'a world \<Rightarrow> 'a world" where
  "put n sp w = w\<lparr>tasks := tasks w @ [(n, sp)], events := events w @ [Put n]\<rparr>"

section \<open>Outcomes of the external collaborators\<close>

text \<open>
  The robot, the learning library, the file system and the remote service are outside
  the program. What they return in one cycle is a parameter: a call that raises is
  \<open>None\<close>, \<open>False\<close> or \<open>Unreachable\<close>.
\<close>

datatype 'r http = Unreachable | Reply 'r

text \<open>The body of the reply to \<^verbatim>\<open>POST /optimize\<close>: \<^verbatim>\<open>pickle.loads\<close> raises on \<open>Garbage\<close>.\<close>

datatype 'a body = Pickled "'a list" | Garbage

record 'a ext =
  episode :: "'a option"
  save_ok :: bool
  train_ok :: bool
  compile_ok :: bool
  minimized :: "'a list option"
  status_reply :: "string http"
  init_reply :: "string http"
  optimize_reply :: "'a body http"

section \<open>The local optimization strategy\<close>

text \<open>
  A job returns the exception that ended it, if any, the task specification as the job
  left it (the dictionary is mutated in place) and the shared state.
\<close>

type_synonym 'a job_result = "error option \<times> 'a task_spec \<times> 'a world"

text \<open>
  \<^verbatim>\<open>n_polopt_iters = len([p for p in exp.policy_parameters if len(p) > 0])\<close>
\<close>

definition n_polopt_iters :: "'a experience \<Rightarrow> int" where
  "n_polopt_iters ex = int (length (filter (\<lambda>p. length p > 0) (policy_parameters ex)))"

text \<open>Lines 144 to 149: the check whether the task is done, then the unconditional put.\<close>

definition polopt_finish :: "name \<Rightarrow> 'a task_spec \<Rightarrow> 'a world \<Rightarrow> 'a job_result" where
  "polopt_finish task_name task_spec w =
     (let w' = (if n_polopt_iters (experience task_spec) \<ge> n_opt task_spec
                then set_state task_name ''done'' w else w)
      in (None, task_spec, put task_name task_spec w'))"

text \<open>
  Lines 128 to 130: the inputs of the optimizer. Without the key \<^verbatim>\<open>extra_in\<close> the
  default of \<^verbatim>\<open>task_spec.get\<close> is the class \<^verbatim>\<open>OrderedDict\<close>, and \<^verbatim>\<open>len\<close> of a
  class raises \<^verbatim>\<open>TypeError\<close>; with extra inputs, each is looked up in the cost
  parameters.
\<close>

definition polopt_args :: "'a task_spec \<Rightarrow> error + string list" where
  "polopt_args task_spec =
     (case extra_in task_spec of
        None \<Rightarrow> Inl TypeError
      | Some ks \<Rightarrow>
          if length ks > 0 then
            (case cost_params task_spec of
               None \<Rightarrow> Inl (KeyError ''params'')
             | Some ps \<Rightarrow>
                 (case filter (\<lambda>k. k \<notin> set ps) ks of
                    [] \<Rightarrow> Inr ks
                  | k # rest \<Rightarrow> Inl (KeyError k)))
          else Inr [])"

text \<open>
  Lines 122 to 142: the state becomes \<^verbatim>\<open>'update_polopt'\<close>, the inputs are built, the
  optimizer runs and updates the policy parameters in place, the state becomes
  \<^verbatim>\<open>'ready'\<close>.
\<close>

definition polopt_update :: "'a ext \<Rightarrow> name \<Rightarrow> 'a task_spec \<Rightarrow> 'a world \<Rightarrow> 'a job_result" where
  "polopt_update x task_name task_spec w =
     (let w1 = set_state task_name ''update_polopt'' w in
      case polopt_args task_spec of
        Inl e \<Rightarrow> (Some e, task_spec, w1)
      | Inr args \<Rightarrow>
          (case minimized x of
             None \<Rightarrow> (Some OptimizationError, task_spec, w1)
           | Some ps \<Rightarrow>
               polopt_finish task_name
                 (task_spec\<lparr>policy := (policy task_spec)\<lparr>params := ps\<rparr>\<rparr>)
                 (set_state task_name ''ready'' (log_event (Minimized task_name) w1))))"

text \<open>
  Lines 85 to 120: when the optimizer has no objective yet, the state becomes
  \<^verbatim>\<open>'compile_polopt'\<close>, the free inputs of the cost are stored as
  \<^verbatim>\<open>task_spec['extra_in']\<close> (line 103), the loss is built and installed as the
  objective.
\<close>

definition polopt_compile :: "'a ext \<Rightarrow> name \<Rightarrow> 'a task_spec \<Rightarrow> 'a world \<Rightarrow> 'a job_result" where
  "polopt_compile x task_name task_spec w =
     (if loss_fn (optimizer task_spec) = None then
        (let w1 = set_state task_name ''compile_polopt'' w;
             task_spec1 = task_spec\<lparr>extra_in := Some (cost_inputs task_spec)\<rparr>
         in if compile_ok x then
              polopt_update x task_name
                (task_spec1\<lparr>optimizer := set_objective (optimizer task_spec1)\<rparr>)
                (log_event (Compiled task_name) w1)
            else (Some OptimizationError, task_spec1, w1))
      else polopt_update x task_name task_spec w)"

text \<open>
  \<^verbatim>\<open>mc_pilco_polopt\<close>. The name \<^verbatim>\<open>state\<close> it tests on line 78 is the module-level
  variable of the main loop; it is the first argument here.
\<close>

definition mc_pilco_polopt ::
  "string \<Rightarrow> 'a ext \<Rightarrow> name \<Rightarrow> 'a task_spec \<Rightarrow> 'a world \<Rightarrow> 'a job_result" where
  "mc_pilco_polopt state x task_name task_spec w =
     (if state \<noteq> ''init'' then
        (if train_ok x then
           polopt_compile x task_name task_spec (log_event (Trained task_name) w)
         else (Some OptimizationError, task_spec, w))
      else polopt_finish task_name task_spec w)"

section \<open>The remote optimization strategy\<close>

text \<open>
  \<^verbatim>\<open>http_polopt\<close>: ask whether the task is registered, upload the specification
  when the answer is the NOT FOUND text, post experience and parameters, unpickle the
  reply, set the parameters, put the task on the queue. Nothing is caught.
\<close>

definition http_polopt :: "'a ext \<Rightarrow> name \<Rightarrow> 'a task_spec \<Rightarrow> 'a world \<Rightarrow> 'a job_result" where
  "http_polopt x task_name task_spec w =
     (case status_reply x of
        Unreachable \<Rightarrow> (Some RemoteServiceError, task_spec, w)
      | Reply text \<Rightarrow>
          if text = ''get_task_init_status/'' @ task_name @ '': NOT FOUND''
             \<and> init_reply x = Unreachable
          then (Some RemoteServiceError, task_spec, w)
          else
            (case optimize_reply x of
               Unreachable \<Rightarrow> (Some RemoteServiceError, task_spec, w)
             | Reply Garbage \<Rightarrow> (Some UnpicklingError, task_spec, w)
             | Reply (Pickled ps) \<Rightarrow>
                 (let task_spec' = task_spec\<lparr>policy := (policy task_spec)\<lparr>params := ps\<rparr>\<rparr>
                  in (None, task_spec',
                      put task_name task_spec' (log_event (Remote_optimized task_name) w)))))"

definition run_job ::
  "polopt \<Rightarrow> string \<Rightarrow> 'a ext \<Rightarrow> name \<Rightarrow> 'a task_spec \<Rightarrow> 'a world \<Rightarrow> 'a job_result" where
  "run_job f state x task_name task_spec w =
     (case f of
        Mc_pilco_polopt \<Rightarrow> mc_pilco_polopt state x task_name task_spec w
      | Http_polopt \<Rightarrow> http_polopt x task_name task_spec w)"

section \<open>The guard of the main loop\<close>

text \<open>
  \<^verbatim>\<open>while not all([st == 'done' for st in task_state])\<close>: iterating over a Python
  dictionary yields its keys, so \<^verbatim>\<open>st\<close> ranges over the task names.
\<close>

definition loop_guard :: "'a world \<Rightarrow> bool" where
  "loop_guard w = (\<not> list_all (\<lambda>st. st = ''done'') (map fst (task_state w)))"

text \<open>Every task's recorded state is \<^verbatim>\<open>'done'\<close>.\<close>

definition all_done :: "'a world \<Rightarrow> bool" where
  "all_done w = list_all (\<lambda>st. st = ''done'') (map snd (task_state w))"

section \<open>One cycle of the scheduler\<close>

text \<open>
  Lines 299 to 312: the acting policy, the optimization strategy, the decremented trial
  count and the value of the loop's variable \<^verbatim>\<open>state\<close>. The optional argument is
  \<^verbatim>\<open>config.get('default_polopt_fn')\<close>.
\<close>

definition choose_policy ::
  "polopt option \<Rightarrow> string \<Rightarrow> 'a task_spec \<Rightarrow> 'a acting \<times> polopt \<times> 'a task_spec \<times> string" where
  "choose_policy default_polopt_fn state spec =
     (if state = ''init'' \<and> initial_random_trials spec > 0 then
        (let spec' = spec\<lparr>initial_random_trials := initial_random_trials spec - 1\<rparr> in
         (RandPolicy, Mc_pilco_polopt, spec',
          if initial_random_trials spec' < 1 then ''ready'' else state))
      else
        (Learned (policy spec),
         (case polopt_fn spec of
            Some f \<Rightarrow> f
          | None \<Rightarrow> (case default_polopt_fn of Some f \<Rightarrow> f | None \<Rightarrow> Http_polopt)),
         spec, state))"

text \<open>
  Lines 327 and 328: the parameters stored with the episode. Modelled from the spec:
  \<^verbatim>\<open>RandPolicy\<close> of the kusanagi library is not part of the sources; it is the
  fixed-form exploration policy with no learned parameters.
\<close>

definition get_pol_params :: "'a acting \<Rightarrow> 'a list" where
  "get_pol_params pol =
     (case pol of
        RandPolicy \<Rightarrow> []
      | Learned p \<Rightarrow> if has_params p then params p else [])"

definition is_exploration :: "'a acting \<Rightarrow> bool" where
  "is_exploration pol = (case pol of RandPolicy \<Rightarrow> True | Learned p \<Rightarrow> False)"

text \<open>
  The result of the loop body from line 284 on, for the dequeued \<^verbatim>\<open>(name, spec)\<close>:
  the task was skipped, an exception left the loop, or a thread was started with the
  strategy, the current value of \<^verbatim>\<open>state\<close> and the specification.
\<close>

datatype 'a cycle_result =
    Skipped "'a world"
  | Failed error "'a task_spec" "'a world"
  | Launched polopt string "'a task_spec" "'a world"

definition cycle ::
  "polopt option \<Rightarrow> 'a ext \<Rightarrow> name \<Rightarrow> 'a task_spec \<Rightarrow> 'a world \<Rightarrow> 'a cycle_result" where
  "cycle default_polopt_fn x name spec w =
     (case map_of (task_state w) name of
        None \<Rightarrow> Failed (KeyError name) spec w
      | Some state \<Rightarrow>
          if state = ''done'' then Skipped w
          else
            (case choose_policy default_polopt_fn state spec of
               (pol, fn, spec1, state1) \<Rightarrow>
                 (case episode x of
                    None \<Rightarrow> Failed RobotIOError spec1 w
                  | Some traj \<Rightarrow>
                      (let spec2 = spec1\<lparr>experience :=
                             append_episode traj (get_pol_params pol) (experience spec1)\<rparr>
                       in if save_ok x then
                            Launched fn state1 spec2
                              (log_event (Started name fn)
                                (log_event (Episode name (is_exploration pol)) w))
                          else Failed PersistenceError spec2 w))))"

section \<open>The main loop\<close>

datatype 'a outcome =
    Exited "'a world"
  | Blocked "'a world"
  | Raised error "'a world"
  | Continue "'a world"

text \<open>
  The loop body from line 284 on, with the started thread run to completion before the
  next dequeue (the schedule of the commented-out call \<^verbatim>\<open>polopt_fn(name, spec, tasks)\<close>).
  An exception in the thread ends the thread only.
\<close>

definition body ::
  "polopt option \<Rightarrow> 'a ext \<Rightarrow> name \<Rightarrow> 'a task_spec \<Rightarrow> 'a world \<Rightarrow> 'a outcome" where
  "body default_polopt_fn x name spec w =
     (case cycle default_polopt_fn x name spec w of
        Skipped w' \<Rightarrow> Continue w'
      | Failed e spec' w' \<Rightarrow> Raised e w'
      | Launched fn state spec' w' \<Rightarrow>
          (case run_job fn state x name spec' w' of
             (None, spec'', w'') \<Rightarrow> Continue w''
           | (Some e, spec'', w'') \<Rightarrow> Continue (log_event (Job_died name e) w'')))"

text \<open>
  Every name the module binds at top level, at any point of a run: the imports, the
  functions, the variables of the main block and the variables of its list
  comprehensions. Python resolves a global name in this namespace and then in the
  builtins, which have no \<^verbatim>\<open>task_id\<close>.
\<close>

definition bound_names :: "string list" where
  "bound_names =
     [''argparse'', ''np'', ''os'', ''rospy'', ''threading'', ''yaml'', ''requests'',
      ''pickle'', ''OrderedDict'', ''partial'', ''Queue'', ''Empty'', ''ROSPlant'',
      ''apply_controller'', ''train_dynamics'', ''preprocess_angles'',
      ''ExperienceDataset'', ''mc_pilco'', ''RandPolicy'', ''utils'',
      ''numpy_code_constructor'', ''include_constructor'', ''default_config'',
      ''parse_config'', ''mc_pilco_polopt'', ''http_polopt'',
      ''parser'', ''args'', ''load_experience'', ''config'', ''output_directory'', ''e'',
      ''dir_time'', ''target_dir'', ''plant_params'', ''env'', ''tasks'', ''task_state'',
      ''polopt_threads'', ''task_name'', ''spec'', ''exp'', ''pol'', ''st'',
      ''new_task_ready'', ''name'', ''state'', ''polopt_fn'', ''H'', ''preprocess'',
      ''experience'', ''states'', ''actions'', ''costs'', ''infos'', ''info'', ''ts'',
      ''pol_params'', ''new_thread'']"

definition lookup_global :: "string \<Rightarrow> error + unit" where
  "lookup_global n = (if n \<in> set bound_names then Inr () else Inl (NameError n))"

text \<open>
  One iteration of the main loop, lines 272 to 339: the guard, the dequeue (an empty
  queue keeps the loop waiting), the log-file setup of line 282, which evaluates
  \<^verbatim>\<open>task_id\<close>, and the body.
\<close>

definition scheduler_iteration :: "polopt option \<Rightarrow> 'a ext \<Rightarrow> 'a world \<Rightarrow> 'a outcome" where
  "scheduler_iteration default_polopt_fn x w =
     (if \<not> loop_guard w then Exited w
      else
        (case tasks w of
           [] \<Rightarrow> Blocked w
         | (name, spec) # q \<Rightarrow>
             (case lookup_global ''task_id'' of
                Inl e \<Rightarrow> Raised e (w\<lparr>tasks := q\<rparr>)
              | Inr u \<Rightarrow> body default_polopt_fn x name spec (w\<lparr>tasks := q\<rparr>))))"

text \<open>
  The loop from line 284 on, without the guard and the log-file setup: dequeue and
  body, once for each element of a list of external outcomes.
\<close>

definition step :: "polopt option \<Rightarrow> 'a ext \<Rightarrow> 'a world \<Rightarrow> 'a outcome" where
  "step default_polopt_fn x w =
     (case tasks w of
        [] \<Rightarrow> Blocked w
      | (name, spec) # q \<Rightarrow> body default_polopt_fn x name spec (w\<lparr>tasks := q\<rparr>))"

fun run :: "polopt option \<Rightarrow> 'a ext list \<Rightarrow> 'a world \<Rightarrow> 'a outcome" where
  "run default_polopt_fn [] w = Continue w"
| "run default_polopt_fn (x # xs) w =
     (case step default_polopt_fn x w of
        Continue w' \<Rightarrow> run default_polopt_fn xs w'
      | Exited w' \<Rightarrow> Exited w'
      | Blocked w' \<Rightarrow> Blocked w'
      | Raised e w' \<Rightarrow> Raised e w')"

section \<open>Startup: the task queue is populated\<close>

text \<open>
  One configured task, lines 248 to 269: its name and specification, the value of
  \<^verbatim>\<open>spec.get('experience', None)\<close>, what \<^verbatim>\<open>exp.load()\<close> yields when that is
  \<^verbatim>\<open>None\<close> (\<open>None\<close> when loading raises, which the program passes over), and the
  replies of the remote service. The field \<open>experience\<close> of the specification is
  assigned on line 260; its value before is not read.
\<close>

record 'a entry =
  cfg_name :: name
  cfg_spec :: "'a task_spec"
  cfg_experience :: "'a experience option"
  cfg_loaded :: "'a experience option"
  cfg_ext :: "'a ext"

definition register :: "'a entry \<Rightarrow> 'a world \<Rightarrow> error + 'a world" where
  "register t w =
     (let ex = (case cfg_experience t of
                  Some given \<Rightarrow> given
                | None \<Rightarrow>
                    (case cfg_loaded t of
                       Some l \<Rightarrow> l
                     | None \<Rightarrow> \<lparr>episodes = [], policy_parameters = []\<rparr>));
          pol = (case cfg_experience t of
                   Some given \<Rightarrow> policy (cfg_spec t)
                 | None \<Rightarrow>
                     (case cfg_loaded t of
                        Some l \<Rightarrow>
                          if length (policy_parameters l) > 0
                          then (policy (cfg_spec t))\<lparr>params := last (policy_parameters l)\<rparr>
                          else policy (cfg_spec t)
                      | None \<Rightarrow> policy (cfg_spec t)));
          spec = (cfg_spec t)\<lparr>experience := ex, policy := pol\<rparr>;
          w1 = set_state (cfg_name t) ''init'' w
      in if length (policy_parameters ex) > 0 then
           (case http_polopt (cfg_ext t) (cfg_name t) spec w1 of
              (None, spec', w2) \<Rightarrow> Inr w2
            | (Some e, spec', w2) \<Rightarrow> Inl e)
         else Inr (put (cfg_name t) spec w1))"

fun populate :: "'a entry list \<Rightarrow> 'a world \<Rightarrow> error + 'a world" where
  "populate [] w = Inr w"
| "populate (t # ts) w =
     (case register t w of
        Inl e \<Rightarrow> Inl e
      | Inr w' \<Rightarrow> populate ts w')"

section \<open>Observations on runs\<close>

definition is_episode :: "event \<Rightarrow> bool" where
  "is_episode e = (case e of Episode n b \<Rightarrow> True | _ \<Rightarrow> False)"

definition episodes_collected :: "'a world \<Rightarrow> nat" where
  "episodes_collected w = length (filter is_episode (events w))"

section \<open>A concrete task\<close>

definition demo_spec :: "nat task_spec" where
  "demo_spec = \<lparr>initial_random_trials = 4, n_opt = 1,
      policy = \<lparr>has_params = True, params = [7]\<rparr>,
      experience = \<lparr>episodes = [], policy_parameters = []\<rparr>,
      optimizer = \<lparr>loss_fn = None\<rparr>, polopt_fn = Some Mc_pilco_polopt,
      cost_inputs = [], cost_params = None, extra_in = None\<rparr>"

definition demo_ext :: "nat ext" where
  "demo_ext = \<lparr>episode = Some 0, save_ok = True, train_ok = True, compile_ok = True,
      minimized = Some [8], status_reply = Reply ''ok'', init_reply = Reply ''ok'',
      optimize_reply = Reply (Pickled [9])\<rparr>"

definition demo_entry :: "nat entry" where
  "demo_entry = \<lparr>cfg_name = ''cartpole'', cfg_spec = demo_spec, cfg_experience = None,
      cfg_loaded = None, cfg_ext = demo_ext\<rparr>"

text \<open>
  The shared state after startup with this one task, as \<open>populate\<close> leaves it, and
  the same with no \<^verbatim>\<open>polopt_fn\<close> in the task's specification, so that the default
  strategy applies.
\<close>

definition demo_world :: "nat world" where
  "demo_world = \<lparr>task_state = [(''cartpole'', ''init'')], tasks = [(''cartpole'', demo_spec)],
      events = [Wrote ''cartpole'' ''init'', Put ''cartpole'']\<rparr>"

definition remote_world :: "nat world" where
  "remote_world = \<lparr>task_state = [(''cartpole'', ''init'')],
      tasks = [(''cartpole'', demo_spec\<lparr>polopt_fn := None\<rparr>)],
      events = [Wrote ''cartpole'' ''init'', Put ''cartpole'']\<rparr>"



definition ready_world :: "nat world" where
  "ready_world = \<lparr>task_state = [(''cartpole'', ''ready'')], tasks = [], events = []\<rparr>"

section \<open>Traces of a run\<close>

text \<open>
  The values written to \<^verbatim>\<open>task_state[n]\<close> in a sequence of events, in order, and the
  number of times the objective of task \<open>n\<close> was built and installed.
\<close>

fun writes :: "name \<Rightarrow> event list \<Rightarrow> string list" where
  "writes n [] = []"
| "writes n (Wrote m s # evs) = (if m = n then s # writes n evs else writes n evs)"
| "writes n (e # evs) = writes n evs"

fun compilations :: "name \<Rightarrow> event list \<Rightarrow> nat" where
  "compilations n [] = 0"
| "compilations n (Compiled m # evs) =
     (if m = n then Suc (compilations n evs) else compilations n evs)"
| "compilations n (e # evs) = compilations n evs"

text \<open>
  The steps the recorded state takes in \<^verbatim>\<open>mc_pilco_polopt\<close>: from \<^verbatim>\<open>'init'\<close> or
  \<^verbatim>\<open>'ready'\<close> to \<^verbatim>\<open>'compile_polopt'\<close> (line 87), to \<^verbatim>\<open>'update_polopt'\<close> (line 123)
  or to \<^verbatim>\<open>'done'\<close> (line 147); from \<^verbatim>\<open>'compile_polopt'\<close> to \<^verbatim>\<open>'update_polopt'\<close>;
  from \<^verbatim>\<open>'update_polopt'\<close> to \<^verbatim>\<open>'ready'\<close> (line 142). A sequence of states is a
  chain when each state follows the one before by such a step.
\<close>

definition lifecycle :: "string \<Rightarrow> string \<Rightarrow> bool" where
  "lifecycle s t = ((s, t) \<in> set
     [(''init'', ''compile_polopt''), (''init'', ''update_polopt''), (''init'', ''done''),
      (''ready'', ''compile_polopt''), (''ready'', ''update_polopt''), (''ready'', ''done''),
      (''compile_polopt'', ''update_polopt''), (''update_polopt'', ''ready'')])"

fun chain :: "string list \<Rightarrow> bool" where
  "chain (s # t # r) = (lifecycle s t \<and> chain (t # r))"
| "chain r = True"

text \<open>The events added between two states of the process.\<close>

definition delta :: "'a world \<Rightarrow> 'a world \<Rightarrow> event list" where
  "delta w w' = drop (length (events w)) (events w')"

fun world_of :: "'a outcome \<Rightarrow> 'a world" where
  "world_of (Exited w) = w"
| "world_of (Blocked w) = w"
| "world_of (Raised e w) = w"
| "world_of (Continue w) = w"

text \<open>
  What holds of every task name throughout a run: the recorded state is the value
  written last, the writes start with \<^verbatim>\<open>'init'\<close> and form a chain, and the objective
  was built at most as often as \<^verbatim>\<open>'compile_polopt'\<close> was written, which is at most
  once. What holds of every queue entry: its recorded state is \<^verbatim>\<open>'init'\<close>,
  \<^verbatim>\<open>'ready'\<close> or \<^verbatim>\<open>'done'\<close>, and if its optimizer has no objective then
  \<^verbatim>\<open>'compile_polopt'\<close> was never written for it, and if its objective was built then
  its \<^verbatim>\<open>extra_in\<close> is present. The queue holds each name at most once.
\<close>

definition name_ok :: "name \<Rightarrow> 'a world \<Rightarrow> bool" where
  "name_ok n w =
     (map_of (task_state w) n =
        (if writes n (events w) = [] then None else Some (last (writes n (events w)))) \<and>
      chain (writes n (events w)) \<and>
      (writes n (events w) = [] \<or> hd (writes n (events w)) = ''init'') \<and>
      compilations n (events w) \<le> count_list (writes n (events w)) ''compile_polopt'' \<and>
      count_list (writes n (events w)) ''compile_polopt'' \<le> 1)"

definition queued_ok :: "'a world \<Rightarrow> name \<times> 'a task_spec \<Rightarrow> bool" where
  "queued_ok w t =
     (map_of (task_state w) (fst t) \<in> {Some ''init'', Some ''ready'', Some ''done''} \<and>
      (loss_fn (optimizer (snd t)) = None \<longrightarrow>
         ''compile_polopt'' \<notin> set (writes (fst t) (events w))) \<and>
      (compilations (fst t) (events w) > 0 \<longrightarrow> extra_in (snd t) \<noteq> None))"

definition consistent :: "'a world \<Rightarrow> bool" where
  "consistent w = (distinct (map fst (tasks w)) \<and> (\<forall>n. name_ok n w) \<and>
            (\<forall>t \<in> set (tasks w). queued_ok w t))"

text \<open>
  A task whose experience holds one episode collected with the learned policy, so that
  its count of optimization iterations has reached \<^verbatim>\<open>n_opt = 1\<close>.
\<close>

definition trained_spec :: "nat task_spec" where
  "trained_spec = \<lparr>initial_random_trials = 0, n_opt = 1,
      policy = \<lparr>has_params = True, params = [7]\<rparr>,
      experience = \<lparr>episodes = [0], policy_parameters = [[7]]\<rparr>,
      optimizer = \<lparr>loss_fn = Some Loss\<rparr>, polopt_fn = Some Mc_pilco_polopt,
      cost_inputs = [], cost_params = None, extra_in = Some []\<rparr>"


section \<open>The output directory\<close>

text \<open>
  The file system as far as lines 221 to 234 use it: the directories, by path, each with
  the text that \<^verbatim>\<open>str(os.stat(p).st_ctime)\<close> gives and the names of the files in it.
  Paths are plain: no \<^verbatim>\<open>.\<close> or \<^verbatim>\<open>..\<close> components, no repeated slashes inside.
\<close>

record dir =
  st_ctime :: string
  files :: "string list"

type_synonym fs = "(string \<times> dir) list"

text \<open>
  \<^verbatim>\<open>os.path.dirname\<close> of \<^verbatim>\<open>posixpath\<close>: the path up to and including its last
  slash, with the trailing slashes stripped unless it consists of slashes only.
\<close>

definition rstrip_slash :: "string \<Rightarrow> string" where
  "rstrip_slash p = rev (dropWhile (\<lambda>c. c = CHR ''/'') (rev p))"

definition all_slashes :: "string \<Rightarrow> bool" where
  "all_slashes p = list_all (\<lambda>c. c = CHR ''/'') p"

definition dirname :: "string \<Rightarrow> string" where
  "dirname p =
     (let head = rev (dropWhile (\<lambda>c. c \<noteq> CHR ''/'') (rev p))
      in if head \<noteq> [] \<and> \<not> all_slashes head then rstrip_slash head else head)"

text \<open>
  The operating system takes a path with trailing slashes for the directory without
  them. A parent directory must exist; the root and the working directory do. A path
  lies below a directory when it continues the directory's path after a slash.
\<close>

definition resolve :: "string \<Rightarrow> string" where
  "resolve p = (if all_slashes p then p else rstrip_slash p)"

definition parent_ok :: "fs \<Rightarrow> string \<Rightarrow> bool" where
  "parent_ok fs p =
     (dirname (resolve p) = [] \<or> all_slashes (dirname (resolve p)) \<or>
      map_of fs (dirname (resolve p)) \<noteq> None)"

definition below :: "string \<Rightarrow> string \<Rightarrow> bool" where
  "below p q =
     (if p = [] then q \<noteq> [] \<and> take 1 q \<noteq> ''/''
      else if all_slashes p then q \<noteq> p \<and> take (length p) q = p
      else take (length p + 1) q = p @ ''/'' \<and> length q > length p + 1)"

definition empty_dir :: "fs \<Rightarrow> string \<Rightarrow> bool" where
  "empty_dir fs p =
     (list_all (\<lambda>(q, d). \<not> below p q) fs \<and>
      (case map_of fs p of None \<Rightarrow> True | Some d \<Rightarrow> files d = []))"

text \<open>Creating or removing an entry of a directory sets the change time of the directory.\<close>

definition touch :: "string \<Rightarrow> string \<Rightarrow> fs \<Rightarrow> fs" where
  "touch now p fs = map (\<lambda>(q, d). if q = p then (q, d\<lparr>st_ctime := now\<rparr>) else (q, d)) fs"

text \<open>
  \<^verbatim>\<open>os.stat\<close>; \<^verbatim>\<open>os.mkdir\<close>, which makes an empty directory with the current time;
  \<^verbatim>\<open>os.rename\<close> of a directory, which moves the directory and all that lies below it,
  sets its change time, replaces an existing empty target directory and refuses to
  move the root, to move a directory below itself or onto a directory that is not
  empty.
\<close>

definition stat :: "string \<Rightarrow> fs \<Rightarrow> error + dir" where
  "stat p fs =
     (case map_of fs (resolve p) of None \<Rightarrow> Inl (OSError ''ENOENT'') | Some d \<Rightarrow> Inr d)"

definition mkdir :: "string \<Rightarrow> string \<Rightarrow> fs \<Rightarrow> error + fs" where
  "mkdir now p fs =
     (if map_of fs (resolve p) \<noteq> None then Inl (OSError ''EEXIST'')
      else if \<not> parent_ok fs p then Inl (OSError ''ENOENT'')
      else Inr (touch now (dirname (resolve p)) fs @
                [(resolve p, \<lparr>st_ctime = now, files = []\<rparr>)]))"

definition moved :: "string \<Rightarrow> string \<Rightarrow> string \<Rightarrow> string \<times> dir \<Rightarrow> string \<times> dir" where
  "moved now s t e =
     (if fst e = s then (t, (snd e)\<lparr>st_ctime := now\<rparr>)
      else if below s (fst e) then (t @ drop (length s) (fst e), snd e)
      else e)"

definition rename :: "string \<Rightarrow> string \<Rightarrow> string \<Rightarrow> fs \<Rightarrow> error + fs" where
  "rename now src dst fs =
     (case map_of fs (resolve src) of
        None \<Rightarrow> Inl (OSError ''ENOENT'')
      | Some d \<Rightarrow>
          if resolve src = resolve dst then Inr fs
          else if all_slashes (resolve src) then Inl (OSError ''EBUSY'')
          else if below (resolve src) (resolve dst) then Inl (OSError ''EINVAL'')
          else if \<not> parent_ok fs dst then Inl (OSError ''ENOENT'')
          else if \<not> empty_dir fs (resolve dst) then Inl (OSError ''ENOTEMPTY'')
          else Inr (touch now (dirname (resolve dst)) (touch now (dirname (resolve src))
                 (map (moved now (resolve src) (resolve dst))
                    (filter (\<lambda>e. fst e \<noteq> resolve dst) fs)))))"

text \<open>
  Lines 223 to 234, with the times of the three calls that change the file system. Any
  failure of the first \<^verbatim>\<open>os.mkdir\<close> is caught; when experience is to be loaded
  nothing more happens.
\<close>

definition init_output_dir ::
  "bool \<Rightarrow> string \<Rightarrow> string \<Rightarrow> string \<Rightarrow> string \<Rightarrow> fs \<Rightarrow> error + fs" where
  "init_output_dir load_experience t1 t2 t3 output_directory fs =
     (case mkdir t1 output_directory fs of
        Inr fs' \<Rightarrow> Inr fs'
      | Inl e \<Rightarrow>
          if \<not> load_experience then
            (case stat output_directory fs of
               Inl e' \<Rightarrow> Inl e'
             | Inr d \<Rightarrow>
                 (let dir_time = st_ctime d;
                      target_dir = dirname output_directory @ ''_'' @ dir_time
                  in case rename t2 output_directory target_dir fs of
                       Inl e' \<Rightarrow> Inl e'
                     | Inr fs1 \<Rightarrow> mkdir t3 output_directory fs1))
          else Inr fs)"

text \<open>
  A file system in which the output directory of \<^verbatim>\<open>default_config\<close> exists, with a
  file in it and a directory below it.
\<close>

definition demo_fs :: fs where
  "demo_fs =
     [(''/'', \<lparr>st_ctime = ''1540944000.0'', files = []\<rparr>),
      (''/data'', \<lparr>st_ctime = ''1541030400.0'', files = []\<rparr>),
      (''/data/robot_learning'', \<lparr>st_ctime = ''1541116800.25'', files = [''cartpole.zip'']\<rparr>),
      (''/data/robot_learning/plots'', \<lparr>st_ctime = ''1541116900.0'', files = [''cost.png'']\<rparr>)]"

section \<open>Properties\<close>

subsection \<open>The loop guard\<close>

text \<open>The guard holds as long as some task name differs from the string \<^verbatim>\<open>'done'\<close>.\<close>

lemma loop_guard_names:
  "loop_guard w = (\<exists>n \<in> set (map fst (task_state w)). n \<noteq> ''done'')"
  by (simp add: loop_guard_def list_all_iff)

text \<open>
  C2. The loop guard is false exactly when every key of \<^verbatim>\<open>task_state\<close>, that is
  every task name, is the string \<^verbatim>\<open>'done'\<close>; the recorded states play no part. With
  the single task \<^verbatim>\<open>cartpole\<close> recorded as \<^verbatim>\<open>'done'\<close> every task is done, yet the
  guard is true and the loop goes on.
\<close>

theorem loop_guard_done_task_continues:
  "all_done \<lparr>task_state = [(''cartpole'', ''done'')], tasks = [], events = []\<rparr> \<and>
   loop_guard \<lparr>task_state = [(''cartpole'', ''done'')], tasks = [], events = []\<rparr>"
  by (simp add: all_done_def loop_guard_def)

subsection \<open>The remote strategy\<close>

lemma http_polopt_task_state:
  "task_state (snd (snd (http_polopt x n sp w))) = task_state w"
  by (simp add: http_polopt_def put_def log_event_def Let_def split: http.splits body.splits)

text \<open>
  C3. Under the remote strategy a completed optimization pass never marks the task
  done: with \<^verbatim>\<open>n_opt = 1\<close> and one non-empty entry of policy parameters in the
  experience, the budget is reached, the pass completes, the task is put back on the
  queue, and its recorded state is still \<^verbatim>\<open>'ready'\<close>.
\<close>

theorem http_polopt_reached_budget_not_done:
  "n_polopt_iters (experience
      \<lparr>initial_random_trials = 0, n_opt = 1,
       policy = \<lparr>has_params = True, params = [1::nat]\<rparr>,
       experience = \<lparr>episodes = [0], policy_parameters = [[1]]\<rparr>,
       optimizer = \<lparr>loss_fn = None\<rparr>, polopt_fn = None,
       cost_inputs = [], cost_params = None, extra_in = None\<rparr>) \<ge> 1 \<and>
   http_polopt
     \<lparr>episode = Some 0, save_ok = True, train_ok = True, compile_ok = True,
      minimized = Some [2], status_reply = Reply ''ok'', init_reply = Reply ''ok'',
      optimize_reply = Reply (Pickled [2])\<rparr>
     ''cartpole''
     \<lparr>initial_random_trials = 0, n_opt = 1,
      policy = \<lparr>has_params = True, params = [1::nat]\<rparr>,
      experience = \<lparr>episodes = [0], policy_parameters = [[1]]\<rparr>,
      optimizer = \<lparr>loss_fn = None\<rparr>, polopt_fn = None,
      cost_inputs = [], cost_params = None, extra_in = None\<rparr>
     \<lparr>task_state = [(''cartpole'', ''ready'')], tasks = [], events = []\<rparr>
   = (None,
      \<lparr>initial_random_trials = 0, n_opt = 1,
       policy = \<lparr>has_params = True, params = [2]\<rparr>,
       experience = \<lparr>episodes = [0], policy_parameters = [[1]]\<rparr>,
       optimizer = \<lparr>loss_fn = None\<rparr>, polopt_fn = None,
       cost_inputs = [], cost_params = None, extra_in = None\<rparr>,
      \<lparr>task_state = [(''cartpole'', ''ready'')],
       tasks = [(''cartpole'',
         \<lparr>initial_random_trials = 0, n_opt = 1,
          policy = \<lparr>has_params = True, params = [2]\<rparr>,
          experience = \<lparr>episodes = [0], policy_parameters = [[1]]\<rparr>,
          optimizer = \<lparr>loss_fn = None\<rparr>, polopt_fn = None,
          cost_inputs = [], cost_params = None, extra_in = None\<rparr>)],
       events = [Remote_optimized ''cartpole'', Put ''cartpole'']\<rparr>)"
  by (simp add: http_polopt_def n_polopt_iters_def put_def log_event_def Let_def)

text \<open>
  C5. When the reply to \<^verbatim>\<open>POST /optimize\<close> cannot be unpickled, the remote
  strategy ends with the exception: the policy parameters are as before, and neither
  the queue nor anything else of the shared state has changed, so the task is not put
  back.
\<close>

theorem http_polopt_malformed_reply:
  "http_polopt
     (x\<lparr>status_reply := Reply t, init_reply := Reply u, optimize_reply := Reply Garbage\<rparr>)
     task_name task_spec w = (Some UnpicklingError, task_spec, w)"
  by (simp add: http_polopt_def)

subsection \<open>Startup and the first dequeue\<close>

lemma http_polopt_queue:
  "http_polopt x n sp w = (None, sp', w') \<Longrightarrow>
   length (tasks w') = Suc (length (tasks w)) \<and> episodes_collected w' = episodes_collected w"
  by (auto simp add: http_polopt_def put_def log_event_def Let_def episodes_collected_def
      is_episode_def split: http.splits body.splits if_splits)

lemma register_queue:
  "register t w = Inr w' \<Longrightarrow>
   length (tasks w') = Suc (length (tasks w)) \<and> episodes_collected w' = episodes_collected w"
proof -
  assume r: "register t w = Inr w'"
  have s: "length (tasks (set_state n s w)) = length (tasks w) \<and>
           episodes_collected (set_state n s w) = episodes_collected w" for n s
    by (simp add: set_state_def episodes_collected_def is_episode_def)
  have p: "length (tasks (put n sp v)) = Suc (length (tasks v)) \<and>
           episodes_collected (put n sp v) = episodes_collected v" for n sp and v :: "'a world"
    by (simp add: put_def episodes_collected_def is_episode_def)
  from r show ?thesis
    by (auto simp add: register_def Let_def s p split: if_splits prod.splits option.splits
        dest!: http_polopt_queue)
qed

lemma populate_queue:
  "populate ts w = Inr w' \<Longrightarrow>
   length (tasks w') = length (tasks w) + length ts \<and> episodes_collected w' = episodes_collected w"
proof (induction ts arbitrary: w)
  case Nil
  then show ?case by simp
next
  case (Cons t ts)
  then obtain w1 where r: "register t w = Inr w1" and p: "populate ts w1 = Inr w'"
    by (auto split: sum.splits)
  from register_queue [OF r] Cons.IH [OF p] show ?case by simp
qed

lemma demo_populate:
  "populate [demo_entry] \<lparr>task_state = [], tasks = [], events = []\<rparr> =
     Inr \<lparr>task_state = [(''cartpole'', ''init'')], tasks = [(''cartpole'', demo_spec)],
          events = [Wrote ''cartpole'' ''init'', Put ''cartpole'']\<rparr>"
  by (simp add: register_def demo_entry_def demo_spec_def set_state_def put_def)

text \<open>
  C10. The log-file setup of line 282 evaluates \<^verbatim>\<open>task_id\<close>, which no statement of
  the module binds. Whenever startup has registered at least one task and the guard
  lets the loop begin, the queue is not empty, the first dequeue succeeds, and the
  iteration ends with \<^verbatim>\<open>NameError\<close> for \<^verbatim>\<open>task_id\<close> before any episode has been
  collected.
\<close>

theorem first_dequeue_raises_NameError:
  assumes "populate ts \<lparr>task_state = [], tasks = [], events = []\<rparr> = Inr w"
    and "ts \<noteq> []" and "loop_guard w"
  shows "\<exists>name spec q. tasks w = (name, spec) # q \<and>
           scheduler_iteration d x w = Raised (NameError ''task_id'') (w\<lparr>tasks := q\<rparr>) \<and>
           episodes_collected (w\<lparr>tasks := q\<rparr>) = 0"
proof -
  from populate_queue [OF assms(1)] assms(2)
  have l: "length (tasks w) > 0" and e: "episodes_collected w = 0"
    by (simp_all add: episodes_collected_def)
  then obtain name spec q where t: "tasks w = (name, spec) # q"
    by (cases "tasks w") auto
  have "scheduler_iteration d x w = Raised (NameError ''task_id'') (w\<lparr>tasks := q\<rparr>)"
    using assms(3) t by (simp add: scheduler_iteration_def lookup_global_def bound_names_def)
  moreover have "episodes_collected (w\<lparr>tasks := q\<rparr>) = 0"
    using e by (simp add: episodes_collected_def)
  ultimately show ?thesis using t by blast
qed

theorem first_dequeue_raises_NameError_witness:
  "scheduler_iteration None demo_ext
     \<lparr>task_state = [(''cartpole'', ''init'')], tasks = [(''cartpole'', demo_spec)],
      events = [Wrote ''cartpole'' ''init'', Put ''cartpole'']\<rparr> =
   Raised (NameError ''task_id'')
     \<lparr>task_state = [(''cartpole'', ''init'')], tasks = [],
      events = [Wrote ''cartpole'' ''init'', Put ''cartpole'']\<rparr>"
proof -
  have g: "loop_guard \<lparr>task_state = [(''cartpole'', ''init'')],
      tasks = [(''cartpole'', demo_spec)],
      events = [Wrote ''cartpole'' ''init'', Put ''cartpole'']\<rparr>"
    by (simp add: loop_guard_def)
  have n: "[demo_entry] \<noteq> []" by simp
  from first_dequeue_raises_NameError [OF demo_populate n g, of None demo_ext]
  show ?thesis by auto
qed

subsection \<open>Scenario: four random trials, one optimization\<close>

lemmas eval_defs = run.simps step_def body_def cycle_def choose_policy_def get_pol_params_def
  is_exploration_def run_job_def mc_pilco_polopt_def polopt_compile_def polopt_update_def
  polopt_args_def
  polopt_finish_def http_polopt_def set_state_def put_def log_event_def append_episode_def
  n_polopt_iters_def set_objective_def demo_spec_def demo_ext_def Let_def

text \<open>
  C4. One task with 4 initial random trials, \<^verbatim>\<open>n_opt = 1\<close> and no strategy of its
  own. The first iteration of the main loop ends with \<^verbatim>\<open>NameError\<close> on line 282. The
  loop body from line 284 on, run five times, uses the exploration policy four times
  (the fourth job already trains and optimizes), then the learned policy with the
  default remote strategy, which leaves the task in state \<^verbatim>\<open>'ready'\<close>: it is not done.
\<close>

theorem scenario_default_strategy_not_done:
  "scheduler_iteration None demo_ext remote_world =
     Raised (NameError ''task_id'') (remote_world\<lparr>tasks := []\<rparr>) \<and>
   run None [demo_ext, demo_ext, demo_ext, demo_ext, demo_ext] remote_world =
     Continue
       \<lparr>task_state = [(''cartpole'', ''ready'')],
        tasks = [(''cartpole'',
          \<lparr>initial_random_trials = 0, n_opt = 1,
           policy = \<lparr>has_params = True, params = [9]\<rparr>,
           experience = \<lparr>episodes = [0, 0, 0, 0, 0],
                         policy_parameters = [[], [], [], [], [8]]\<rparr>,
           optimizer = \<lparr>loss_fn = Some Loss\<rparr>, polopt_fn = None,
           cost_inputs = [], cost_params = None, extra_in = Some []\<rparr>)],
        events =
          [Wrote ''cartpole'' ''init'', Put ''cartpole'',
           Episode ''cartpole'' True, Started ''cartpole'' Mc_pilco_polopt, Put ''cartpole'',
           Episode ''cartpole'' True, Started ''cartpole'' Mc_pilco_polopt, Put ''cartpole'',
           Episode ''cartpole'' True, Started ''cartpole'' Mc_pilco_polopt, Put ''cartpole'',
           Episode ''cartpole'' True, Started ''cartpole'' Mc_pilco_polopt,
           Trained ''cartpole'', Wrote ''cartpole'' ''compile_polopt'', Compiled ''cartpole'',
           Wrote ''cartpole'' ''update_polopt'', Minimized ''cartpole'',
           Wrote ''cartpole'' ''ready'', Put ''cartpole'',
           Episode ''cartpole'' False, Started ''cartpole'' Http_polopt,
           Remote_optimized ''cartpole'', Put ''cartpole'']\<rparr>"
proof -
  have a: "scheduler_iteration None demo_ext remote_world =
     Raised (NameError ''task_id'') (remote_world\<lparr>tasks := []\<rparr>)"
    by (simp add: scheduler_iteration_def loop_guard_def lookup_global_def bound_names_def
        remote_world_def)
  have b: "run None [demo_ext, demo_ext, demo_ext, demo_ext, demo_ext] remote_world =
     Continue
       \<lparr>task_state = [(''cartpole'', ''ready'')],
        tasks = [(''cartpole'',
          \<lparr>initial_random_trials = 0, n_opt = 1,
           policy = \<lparr>has_params = True, params = [9]\<rparr>,
           experience = \<lparr>episodes = [0, 0, 0, 0, 0],
                         policy_parameters = [[], [], [], [], [8]]\<rparr>,
           optimizer = \<lparr>loss_fn = Some Loss\<rparr>, polopt_fn = None,
           cost_inputs = [], cost_params = None, extra_in = Some []\<rparr>)],
        events =
          [Wrote ''cartpole'' ''init'', Put ''cartpole'',
           Episode ''cartpole'' True, Started ''cartpole'' Mc_pilco_polopt, Put ''cartpole'',
           Episode ''cartpole'' True, Started ''cartpole'' Mc_pilco_polopt, Put ''cartpole'',
           Episode ''cartpole'' True, Started ''cartpole'' Mc_pilco_polopt, Put ''cartpole'',
           Episode ''cartpole'' True, Started ''cartpole'' Mc_pilco_polopt,
           Trained ''cartpole'', Wrote ''cartpole'' ''compile_polopt'', Compiled ''cartpole'',
           Wrote ''cartpole'' ''update_polopt'', Minimized ''cartpole'',
           Wrote ''cartpole'' ''ready'', Put ''cartpole'',
           Episode ''cartpole'' False, Started ''cartpole'' Http_polopt,
           Remote_optimized ''cartpole'', Put ''cartpole'']\<rparr>"
    by (simp add: eval_defs remote_world_def)
  from a b show ?thesis by (rule conjI)
qed



subsection \<open>Failures\<close>





subsection \<open>The run keeps the state of every task on its path\<close>

lemma writes_append: "writes n (xs @ ys) = writes n xs @ writes n ys"
  by (induction n xs rule: writes.induct) auto

lemma compilations_append: "compilations n (xs @ ys) = compilations n xs + compilations n ys"
  by (induction n xs rule: compilations.induct) auto

lemma chain_append:
  "xs \<noteq> [] \<Longrightarrow> chain (xs @ ys) = (chain xs \<and> chain (last xs # ys))"
proof (induction xs)
  case Nil
  then show ?case by simp
next
  case (Cons a zs)
  note IH = Cons.IH
  show ?case
  proof (cases zs)
    case Nil
    then show ?thesis by (cases ys) simp_all
  next
    case (Cons b us)
    with IH show ?thesis by simp
  qed
qed

lemmas job_defs = mc_pilco_polopt_def polopt_compile_def polopt_update_def polopt_args_def
  polopt_finish_def
  set_state_def put_def log_event_def set_objective_def Let_def

lemma mc_events:
  "mc_pilco_polopt st x n sp w = (r, sp', w') \<Longrightarrow> events w' = events w @ delta w w'"
  by (auto simp add: job_defs delta_def split: if_splits option.splits sum.splits list.splits)

lemma mc_others:
  "mc_pilco_polopt st x n sp w = (r, sp', w') \<Longrightarrow> m \<noteq> n \<Longrightarrow>
   writes m (delta w w') = [] \<and> compilations m (delta w w') = 0"
  by (auto simp add: job_defs delta_def split: if_splits option.splits sum.splits list.splits)

lemma mc_task_state:
  "mc_pilco_polopt st x n sp w = (r, sp', w') \<Longrightarrow>
   map_of (task_state w') m =
     (if writes m (delta w w') = [] then map_of (task_state w) m
      else Some (last (writes m (delta w w'))))"
  by (auto simp add: job_defs delta_def update_conv' split: if_splits option.splits sum.splits list.splits)

lemma mc_tasks:
  "mc_pilco_polopt st x n sp w = (r, sp', w') \<Longrightarrow>
   tasks w' = tasks w @ (if r = None then [(n, sp')] else [])"
  by (auto simp add: job_defs split: if_splits option.splits sum.splits list.splits)

lemma mc_chain:
  "mc_pilco_polopt st x n sp w = (r, sp', w') \<Longrightarrow> s = ''init'' \<or> s = ''ready'' \<Longrightarrow>
   chain (s # writes n (delta w w'))"
  by (auto simp add: job_defs delta_def lifecycle_def split: if_splits option.splits sum.splits list.splits)

lemma mc_compile:
  "mc_pilco_polopt st x n sp w = (r, sp', w') \<Longrightarrow>
   compilations n (delta w w') \<le> count_list (writes n (delta w w')) ''compile_polopt'' \<and>
   count_list (writes n (delta w w')) ''compile_polopt'' \<le> 1 \<and>
   (''compile_polopt'' \<in> set (writes n (delta w w')) \<longrightarrow> loss_fn (optimizer sp) = None)"
  by (auto simp add: job_defs delta_def split: if_splits option.splits sum.splits list.splits)

lemma mc_back:
  "mc_pilco_polopt st x n sp w = (None, sp', w') \<Longrightarrow> s = ''init'' \<or> s = ''ready'' \<Longrightarrow>
   last (s # writes n (delta w w')) \<in> {''init'', ''ready'', ''done''} \<and>
   (loss_fn (optimizer sp') = None \<longrightarrow>
      loss_fn (optimizer sp) = None \<and> ''compile_polopt'' \<notin> set (writes n (delta w w')))"
  by (auto simp add: job_defs delta_def split: if_splits option.splits sum.splits list.splits)

lemma mc_extra:
  "mc_pilco_polopt st x n sp w = (None, sp', w') \<Longrightarrow>
   compilations n (delta w w') > 0 \<or> extra_in sp \<noteq> None \<Longrightarrow> extra_in sp' \<noteq> None"
  by (auto simp add: job_defs delta_def split: if_splits option.splits sum.splits list.splits)

lemma count_list_append: "count_list (xs @ ys) a = count_list xs a + count_list ys a"
  by (induction xs) auto

lemma count_list_zero: "a \<notin> set xs \<Longrightarrow> count_list xs a = 0"
  by (induction xs) auto

lemma inv_extend:
  assumes i: "consistent w" and t: "tasks w = (n, sp) # q"
    and s: "map_of (task_state w) n = Some s"
    and ev: "events w' = events w @ evs"
    and others: "\<And>m. m \<noteq> n \<Longrightarrow> writes m evs = [] \<and> compilations m evs = 0"
    and ts: "\<And>m. map_of (task_state w') m =
               (if writes m evs = [] then map_of (task_state w) m
                else Some (last (writes m evs)))"
    and tk: "tasks w' = q @ (if requeued then [(n, sp')] else [])"
    and ch: "chain (s # writes n evs)"
    and c1: "compilations n evs \<le> count_list (writes n evs) ''compile_polopt''"
    and c2: "count_list (writes n evs) ''compile_polopt'' \<le> 1"
    and c3: "''compile_polopt'' \<in> set (writes n evs) \<Longrightarrow> loss_fn (optimizer sp) = None"
    and bk: "requeued \<Longrightarrow> last (s # writes n evs) \<in> {''init'', ''ready'', ''done''} \<and>
               (loss_fn (optimizer sp') = None \<longrightarrow>
                  loss_fn (optimizer sp) = None \<and> ''compile_polopt'' \<notin> set (writes n evs))"
    and ex: "requeued \<Longrightarrow> compilations n evs > 0 \<or> extra_in sp \<noteq> None \<Longrightarrow>
               extra_in sp' \<noteq> None"
  shows "consistent w'"
proof -
  from i have d: "distinct (map fst (tasks w))" and nm: "\<And>m. name_ok m w"
    and qd: "\<And>t. t \<in> set (tasks w) \<Longrightarrow> queued_ok w t"
    by (auto simp add: consistent_def)
  from d t have nq: "n \<notin> fst ` set q" and dq: "distinct (map fst q)" by auto
  from qd [of "(n, sp)"] t have qn: "queued_ok w (n, sp)" by simp
  from nm [of n] s have wn: "writes n (events w) \<noteq> []" and ls: "last (writes n (events w)) = s"
    by (auto simp add: name_ok_def split: if_splits)
  have other_ok: "name_ok m w'" if "m \<noteq> n" for m
    using nm [of m] others [OF that] ts [of m] ev
    by (simp add: name_ok_def writes_append compilations_append)
  have cnt: "count_list (writes n (events w)) ''compile_polopt'' +
             count_list (writes n evs) ''compile_polopt'' \<le> 1"
  proof (cases "''compile_polopt'' \<in> set (writes n evs)")
    case True
    with c3 qn have "''compile_polopt'' \<notin> set (writes n (events w))"
      by (simp add: queued_ok_def)
    then show ?thesis using c2 by (simp add: count_list_zero)
  next
    case False
    then show ?thesis using nm [of n] by (simp add: name_ok_def count_list_zero)
  qed
  have n1: "map_of (task_state w') n =
      (if writes n (events w') = [] then None else Some (last (writes n (events w'))))"
    using ts [of n] ev wn ls s by (simp add: writes_append)
  have n2: "chain (writes n (events w'))"
    using nm [of n] ch wn ls ev by (simp add: name_ok_def writes_append chain_append)
  have n3: "writes n (events w') = [] \<or> hd (writes n (events w')) = ''init''"
    using nm [of n] wn ev by (simp add: name_ok_def writes_append)
  have n4: "compilations n (events w') \<le> count_list (writes n (events w')) ''compile_polopt''"
    using nm [of n] c1 ev
    by (simp add: name_ok_def writes_append compilations_append count_list_append)
  have n5: "count_list (writes n (events w')) ''compile_polopt'' \<le> 1"
    using cnt ev by (simp add: writes_append count_list_append)
  from n1 n2 n3 n4 n5 have this_ok: "name_ok n w'"
    unfolding name_ok_def by blast
  have all_ok: "name_ok m w'" for m
    using other_ok this_ok by (cases "m = n") auto
  have q_ok: "queued_ok w' t" if "t \<in> set q" for t
  proof -
    from that nq have ne: "fst t \<noteq> n" by auto
    from that t have "queued_ok w t" using qd by simp
    then show ?thesis using others [OF ne] ts [of "fst t"] ev
      by (simp add: queued_ok_def writes_append compilations_append)
  qed
  have back_ok: "queued_ok w' (n, sp')" if requeued
  proof -
    from bk [OF that] have a: "last (s # writes n evs) \<in> {''init'', ''ready'', ''done''}"
      and b: "loss_fn (optimizer sp') = None \<longrightarrow>
                  loss_fn (optimizer sp) = None \<and> ''compile_polopt'' \<notin> set (writes n evs)"
      by auto
    have "map_of (task_state w') n = Some (last (s # writes n evs))"
      using ts [of n] s by simp
    with a have x: "map_of (task_state w') n \<in> {Some ''init'', Some ''ready'', Some ''done''}"
      by auto
    have y: "loss_fn (optimizer sp') = None \<longrightarrow>
               ''compile_polopt'' \<notin> set (writes n (events w'))"
      using b qn ev by (auto simp add: queued_ok_def writes_append)
    have z: "compilations n (events w') > 0 \<longrightarrow> extra_in sp' \<noteq> None"
    proof
      assume "compilations n (events w') > 0"
      with ev have "compilations n (events w) > 0 \<or> compilations n evs > 0"
        by (auto simp add: compilations_append)
      with qn have "compilations n evs > 0 \<or> extra_in sp \<noteq> None"
        by (auto simp add: queued_ok_def)
      from ex [OF that this] show "extra_in sp' \<noteq> None" .
    qed
    from x y z show ?thesis by (simp add: queued_ok_def)
  qed
  have dd: "distinct (map fst (tasks w'))"
    using dq nq tk by auto
  have qq: "\<forall>t \<in> set (tasks w'). queued_ok w' t"
    using q_ok back_ok tk by (auto split: if_splits)
  from dd all_ok qq show ?thesis by (simp add: consistent_def)
qed

lemma http_effect:
  assumes "http_polopt x n sp w = (r, sp', w')"
  shows "events w' = events w @ delta w w'"
    and "writes m (delta w w') = []" and "compilations m (delta w w') = 0"
    and "task_state w' = task_state w"
    and "tasks w' = tasks w @ (if r = None then [(n, sp')] else [])"
    and "optimizer sp' = optimizer sp"
  using assms
  by (auto simp add: http_polopt_def put_def log_event_def Let_def delta_def
      split: http.splits body.splits if_splits)

lemma job_events:
  "run_job f st x n sp w = (r, sp', w') \<Longrightarrow> events w' = events w @ delta w w'"
  by (cases f) (auto simp add: run_job_def dest: mc_events http_effect(1))

lemma job_others:
  "run_job f st x n sp w = (r, sp', w') \<Longrightarrow> m \<noteq> n \<Longrightarrow>
   writes m (delta w w') = [] \<and> compilations m (delta w w') = 0"
  by (cases f) (auto simp add: run_job_def dest: mc_others http_effect(2,3))

lemma job_task_state:
  "run_job f st x n sp w = (r, sp', w') \<Longrightarrow>
   map_of (task_state w') m =
     (if writes m (delta w w') = [] then map_of (task_state w) m
      else Some (last (writes m (delta w w'))))"
proof (cases f)
  case Mc_pilco_polopt
  assume "run_job f st x n sp w = (r, sp', w')"
  with Mc_pilco_polopt have m: "mc_pilco_polopt st x n sp w = (r, sp', w')"
    by (simp add: run_job_def)
  from mc_task_state [OF m] show ?thesis .
next
  case Http_polopt
  assume "run_job f st x n sp w = (r, sp', w')"
  with Http_polopt have h: "http_polopt x n sp w = (r, sp', w')" by (simp add: run_job_def)
  from http_effect(2) [OF h] http_effect(4) [OF h] show ?thesis by simp
qed

lemma job_tasks:
  "run_job f st x n sp w = (r, sp', w') \<Longrightarrow>
   tasks w' = tasks w @ (if r = None then [(n, sp')] else [])"
  by (cases f) (auto simp add: run_job_def dest: mc_tasks http_effect(5))

lemma job_chain:
  "run_job f st x n sp w = (r, sp', w') \<Longrightarrow> s = ''init'' \<or> s = ''ready'' \<Longrightarrow>
   chain (s # writes n (delta w w'))"
proof (cases f)
  case Mc_pilco_polopt
  assume "run_job f st x n sp w = (r, sp', w')" and s: "s = ''init'' \<or> s = ''ready''"
  with Mc_pilco_polopt have m: "mc_pilco_polopt st x n sp w = (r, sp', w')"
    by (simp add: run_job_def)
  from mc_chain [OF m s] show ?thesis .
next
  case Http_polopt
  assume "run_job f st x n sp w = (r, sp', w')"
  with Http_polopt have h: "http_polopt x n sp w = (r, sp', w')" by (simp add: run_job_def)
  from http_effect(2) [OF h] show ?thesis by simp
qed

lemma job_compile:
  "run_job f st x n sp w = (r, sp', w') \<Longrightarrow>
   compilations n (delta w w') \<le> count_list (writes n (delta w w')) ''compile_polopt'' \<and>
   count_list (writes n (delta w w')) ''compile_polopt'' \<le> 1 \<and>
   (''compile_polopt'' \<in> set (writes n (delta w w')) \<longrightarrow> loss_fn (optimizer sp) = None)"
proof (cases f)
  case Mc_pilco_polopt
  assume "run_job f st x n sp w = (r, sp', w')"
  with Mc_pilco_polopt have m: "mc_pilco_polopt st x n sp w = (r, sp', w')"
    by (simp add: run_job_def)
  from mc_compile [OF m] show ?thesis .
next
  case Http_polopt
  assume "run_job f st x n sp w = (r, sp', w')"
  with Http_polopt have h: "http_polopt x n sp w = (r, sp', w')" by (simp add: run_job_def)
  from http_effect(2) [OF h] http_effect(3) [OF h] show ?thesis by simp
qed

lemma job_back:
  "run_job f st x n sp w = (None, sp', w') \<Longrightarrow> s = ''init'' \<or> s = ''ready'' \<Longrightarrow>
   last (s # writes n (delta w w')) \<in> {''init'', ''ready'', ''done''} \<and>
   (loss_fn (optimizer sp') = None \<longrightarrow>
      loss_fn (optimizer sp) = None \<and> ''compile_polopt'' \<notin> set (writes n (delta w w')))"
proof (cases f)
  case Mc_pilco_polopt
  assume "run_job f st x n sp w = (None, sp', w')" and s: "s = ''init'' \<or> s = ''ready''"
  with Mc_pilco_polopt have m: "mc_pilco_polopt st x n sp w = (None, sp', w')"
    by (simp add: run_job_def)
  from mc_back [OF m s] show ?thesis .
next
  case Http_polopt
  assume "run_job f st x n sp w = (None, sp', w')" and s: "s = ''init'' \<or> s = ''ready''"
  with Http_polopt have h: "http_polopt x n sp w = (None, sp', w')" by (simp add: run_job_def)
  from http_effect(2) [OF h] http_effect(6) [OF h] s show ?thesis by auto
qed

lemma cycle_launched:
  assumes "cycle d x n sp w = Launched f st sp2 w2"
  shows "events w2 = events w @ delta w w2"
    and "writes m (delta w w2) = []" and "compilations m (delta w w2) = 0"
    and "task_state w2 = task_state w" and "tasks w2 = tasks w"
    and "optimizer sp2 = optimizer sp"
    and "\<exists>s. map_of (task_state w) n = Some s \<and> s \<noteq> ''done''"
  using assms
  by (auto simp add: cycle_def choose_policy_def log_event_def Let_def delta_def
      split: option.splits if_splits prod.splits)

lemma job_extra:
  "run_job f st x n sp w = (None, sp', w') \<Longrightarrow>
   compilations n (delta w w') > 0 \<or> extra_in sp \<noteq> None \<Longrightarrow> extra_in sp' \<noteq> None"
proof (cases f)
  case Mc_pilco_polopt
  assume "run_job f st x n sp w = (None, sp', w')"
    and c: "compilations n (delta w w') > 0 \<or> extra_in sp \<noteq> None"
  with Mc_pilco_polopt have m: "mc_pilco_polopt st x n sp w = (None, sp', w')"
    by (simp add: run_job_def)
  from mc_extra [OF m c] show ?thesis .
next
  case Http_polopt
  assume "run_job f st x n sp w = (None, sp', w')"
    and c: "compilations n (delta w w') > 0 \<or> extra_in sp \<noteq> None"
  with Http_polopt have h: "http_polopt x n sp w = (None, sp', w')" by (simp add: run_job_def)
  then have "extra_in sp' = extra_in sp"
    by (auto simp add: http_polopt_def Let_def split: http.splits body.splits if_splits)
  with http_effect(3) [OF h, of n] c show ?thesis by simp
qed

lemma cycle_extra:
  "cycle d x n sp w = Launched f st sp2 w2 \<Longrightarrow> extra_in sp2 = extra_in sp"
  by (auto simp add: cycle_def choose_policy_def Let_def
      split: option.splits if_splits prod.splits)

lemma cycle_other:
  "cycle d x n sp w = Skipped w' \<Longrightarrow> w' = w"
  "cycle d x n sp w = Failed e sp' w' \<Longrightarrow> w' = w"
  by (auto simp add: cycle_def choose_policy_def Let_def
      split: option.splits if_splits prod.splits)

lemma inv_dequeue:
  assumes "consistent w" and "tasks w = t # q"
  shows "consistent (w\<lparr>tasks := q\<rparr>)"
  using assms by (auto simp add: consistent_def name_ok_def queued_ok_def)

lemma step_inv:
  assumes i: "consistent w"
  shows "consistent (world_of (step d x w))"
proof (cases "tasks w")
  case Nil
  with i show ?thesis by (simp add: step_def)
next
  case (Cons t q)
  obtain n sp where t: "t = (n, sp)" by (cases t)
  with Cons have tw: "tasks w = (n, sp) # q" by simp
  let ?w0 = "w\<lparr>tasks := q\<rparr>"
  have i0: "consistent ?w0" using inv_dequeue [OF i tw] .
  have st: "step d x w = body d x n sp ?w0" using tw by (simp add: step_def)
  show ?thesis
  proof (cases "cycle d x n sp ?w0")
    case (Skipped w')
    with cycle_other(1) [OF Skipped] i0 st show ?thesis by (simp add: body_def)
  next
    case (Failed e sp' w')
    with cycle_other(2) [OF Failed] i0 st show ?thesis by (simp add: body_def)
  next
    case (Launched f s' sp2 w2)
    note c = cycle_launched [OF Launched]
    from c(7) obtain s where s: "map_of (task_state w) n = Some s" and nd: "s \<noteq> ''done''"
      by auto
    from i tw have "queued_ok w (n, sp)" by (simp add: consistent_def)
    with s nd have s2: "s = ''init'' \<or> s = ''ready''" by (auto simp add: queued_ok_def)
    obtain r sp3 w3 where j: "run_job f s' x n sp2 w2 = (r, sp3, w3)"
      by (cases "run_job f s' x n sp2 w2") auto
    let ?tail = "(case r of None \<Rightarrow> [] | Some e \<Rightarrow> [Job_died n e])"
    let ?w' = "world_of (step d x w)"
    let ?evs = "delta ?w0 w2 @ delta w2 w3 @ ?tail"
    have w': "?w' = (case r of None \<Rightarrow> w3 | Some e \<Rightarrow> log_event (Job_died n e) w3)"
      using st Launched j by (simp add: body_def split: option.splits)
    have ev: "events ?w' = events w @ ?evs"
      using w' c(1) job_events [OF j] by (simp add: log_event_def split: option.splits)
    have wr: "writes m ?evs = writes m (delta w2 w3)" for m
      using c(2) [of m] by (simp add: writes_append split: option.splits)
    have cp: "compilations m ?evs = compilations m (delta w2 w3)" for m
      using c(3) [of m] by (simp add: compilations_append split: option.splits)
    have others: "writes m ?evs = [] \<and> compilations m ?evs = 0" if "m \<noteq> n" for m
      using job_others [OF j that] wr [of m] cp [of m] by simp
    have ts: "map_of (task_state ?w') m =
               (if writes m ?evs = [] then map_of (task_state w) m
                else Some (last (writes m ?evs)))" for m
      using job_task_state [OF j, of m] c(4) w' wr [of m]
      by (simp add: log_event_def split: option.splits)
    have tk: "tasks ?w' = q @ (if r = None then [(n, sp3)] else [])"
      using job_tasks [OF j] c(5) w' by (simp add: log_event_def split: option.splits)
    have ch: "chain (s # writes n ?evs)"
      using job_chain [OF j s2] wr [of n] by simp
    from job_compile [OF j] c(6)
    have c1: "compilations n ?evs \<le> count_list (writes n ?evs) ''compile_polopt''"
      and c2: "count_list (writes n ?evs) ''compile_polopt'' \<le> 1"
      and c3: "''compile_polopt'' \<in> set (writes n ?evs) \<Longrightarrow> loss_fn (optimizer sp) = None"
      using wr [of n] cp [of n] by simp_all
    have bk: "last (s # writes n ?evs) \<in> {''init'', ''ready'', ''done''} \<and>
               (loss_fn (optimizer sp3) = None \<longrightarrow>
                  loss_fn (optimizer sp) = None \<and> ''compile_polopt'' \<notin> set (writes n ?evs))"
      if "r = None"
    proof -
      from that j have "run_job f s' x n sp2 w2 = (None, sp3, w3)" by simp
      from job_back [OF this s2] c(6) wr [of n] show ?thesis by simp
    qed
    have ex: "extra_in sp3 \<noteq> None"
      if "r = None" and "compilations n ?evs > 0 \<or> extra_in sp \<noteq> None"
    proof -
      from that(1) j have "run_job f s' x n sp2 w2 = (None, sp3, w3)" by simp
      from job_extra [OF this] that(2) cycle_extra [OF Launched] cp [of n]
      show ?thesis by simp
    qed
    show ?thesis
      by (rule inv_extend [OF i tw s ev others ts tk ch c1 c2 c3 bk ex])
  qed
qed

lemma run_inv: "consistent w \<Longrightarrow> consistent (world_of (run d xs w))"
proof (induction xs arbitrary: w)
  case Nil
  then show ?case by simp
next
  case (Cons x xs)
  from step_inv [OF Cons.prems, of d x] Cons.IH show ?case
    by (cases "step d x w") auto
qed

lemma inv_register:
  assumes i: "consistent w" and f: "writes n (events w) = []"
    and ev: "events w' = events w @ Wrote n ''init'' # evs"
    and quiet: "\<And>m. writes m evs = [] \<and> compilations m evs = 0"
    and ts: "task_state w' = AList.update n ''init'' (task_state w)"
    and tk: "tasks w' = tasks w @ [(n, sp)]"
  shows "consistent w'"
proof -
  from i have d: "distinct (map fst (tasks w))" and nm: "\<And>m. name_ok m w"
    and qd: "\<And>t. t \<in> set (tasks w) \<Longrightarrow> queued_ok w t"
    by (auto simp add: consistent_def)
  have nq: "n \<notin> fst ` set (tasks w)"
  proof
    assume "n \<in> fst ` set (tasks w)"
    then obtain t where t: "t \<in> set (tasks w)" and "fst t = n" by auto
    with qd [OF t] have "map_of (task_state w) n \<noteq> None" by (auto simp add: queued_ok_def)
    with nm [of n] f show False by (simp add: name_ok_def)
  qed
  have this_ok: "name_ok n w'"
    using nm [of n] f ev ts quiet [of n]
    by (simp add: name_ok_def writes_append compilations_append update_conv')
  have other_ok: "name_ok m w'" if "m \<noteq> n" for m
    using nm [of m] that ev ts quiet [of m]
    by (simp add: name_ok_def writes_append compilations_append update_conv')
  have all_ok: "name_ok m w'" for m
    using this_ok other_ok by (cases "m = n") auto
  have q_ok: "queued_ok w' t" if "t \<in> set (tasks w)" for t
  proof -
    from that nq have "fst t \<noteq> n" by auto
    with qd [OF that] ev ts quiet [of "fst t"] show ?thesis
      by (simp add: queued_ok_def writes_append compilations_append update_conv')
  qed
  have new_ok: "queued_ok w' (n, sp)"
    using f ev ts quiet [of n] nm [of n]
    by (simp add: queued_ok_def name_ok_def writes_append compilations_append update_conv')
  from d nq tk have "distinct (map fst (tasks w'))" by auto
  moreover from q_ok new_ok tk have "\<forall>t \<in> set (tasks w'). queued_ok w' t" by auto
  ultimately show ?thesis using all_ok by (simp add: consistent_def)
qed

lemma register_inv:
  assumes r: "register t w = Inr w'" and i: "consistent w"
    and f: "writes (cfg_name t) (events w) = []"
  shows "consistent w' \<and> (\<forall>m. m \<noteq> cfg_name t \<longrightarrow> writes m (events w') = writes m (events w))"
proof -
  let ?n = "cfg_name t"
  let ?w1 = "set_state ?n ''init'' w"
  have w1: "events ?w1 = events w @ [Wrote ?n ''init'']"
    "task_state ?w1 = AList.update ?n ''init'' (task_state w)" "tasks ?w1 = tasks w"
    by (simp_all add: set_state_def)
  from r obtain sp evs where ev: "events w' = events w @ Wrote ?n ''init'' # evs"
    and quiet: "\<And>m. writes m evs = [] \<and> compilations m evs = 0"
    and ts: "task_state w' = AList.update ?n ''init'' (task_state w)"
    and tk: "tasks w' = tasks w @ [(?n, sp)]"
  proof (cases "length (policy_parameters
      (case cfg_experience t of Some given \<Rightarrow> given
       | None \<Rightarrow> (case cfg_loaded t of Some l \<Rightarrow> l
                  | None \<Rightarrow> \<lparr>episodes = [], policy_parameters = []\<rparr>))) > 0")
    case False
    with r obtain sp where w': "w' = put ?n sp ?w1"
      by (auto simp add: register_def Let_def)
    have "events w' = events w @ Wrote ?n ''init'' # [Put ?n]"
      and "\<And>m. writes m [Put ?n] = [] \<and> compilations m [Put ?n] = 0"
      and "task_state w' = AList.update ?n ''init'' (task_state w)"
      and "tasks w' = tasks w @ [(?n, sp)]"
      using w' by (simp_all add: put_def set_state_def)
    then show ?thesis by (rule that)
  next
    case True
    with r obtain sp0 sp where h: "http_polopt (cfg_ext t) ?n sp0 ?w1 = (None, sp, w')"
      by (auto simp add: register_def Let_def split: prod.splits option.splits)
    note e = http_effect [OF h]
    have "events w' = events w @ Wrote ?n ''init'' # delta ?w1 w'"
      and "\<And>m. writes m (delta ?w1 w') = [] \<and> compilations m (delta ?w1 w') = 0"
      and "task_state w' = AList.update ?n ''init'' (task_state w)"
      and "tasks w' = tasks w @ [(?n, sp)]"
      using e(1) e(2) e(3) e(4) e(5) w1 by simp_all
    then show ?thesis by (rule that)
  qed
  have "consistent w'" by (rule inv_register [OF i f ev quiet ts tk])
  moreover have "\<forall>m. m \<noteq> ?n \<longrightarrow> writes m (events w') = writes m (events w)"
    using ev quiet by (simp add: writes_append)
  ultimately show ?thesis by simp
qed

lemma populate_inv:
  "populate ts w = Inr w' \<Longrightarrow> consistent w \<Longrightarrow> distinct (map cfg_name ts) \<Longrightarrow>
   (\<forall>t \<in> set ts. writes (cfg_name t) (events w) = []) \<Longrightarrow> consistent w'"
proof (induction ts arbitrary: w)
  case Nil
  then show ?case by simp
next
  case (Cons t ts)
  from Cons.prems(1) obtain w1 where r: "register t w = Inr w1" and p: "populate ts w1 = Inr w'"
    by (auto split: sum.splits)
  from Cons.prems(4) have f: "writes (cfg_name t) (events w) = []" by simp
  from register_inv [OF r Cons.prems(2) f]
  have i1: "consistent w1"
    and same: "\<And>m. m \<noteq> cfg_name t \<Longrightarrow> writes m (events w1) = writes m (events w)"
    by auto
  from Cons.prems(3) have d: "distinct (map cfg_name ts)" and nt: "cfg_name t \<notin> cfg_name ` set ts"
    by auto
  have "\<forall>u \<in> set ts. writes (cfg_name u) (events w1) = []"
  proof
    fix u assume u: "u \<in> set ts"
    with nt have "cfg_name u \<noteq> cfg_name t" by (metis imageI)
    from same [OF this] Cons.prems(4) u show "writes (cfg_name u) (events w1) = []" by simp
  qed
  from Cons.IH [OF p i1 d this] show ?case .
qed

lemma inv_empty: "consistent \<lparr>task_state = [], tasks = [], events = []\<rparr>"
  by (simp add: consistent_def name_ok_def)

lemma chain_done_last: "chain ws \<Longrightarrow> ''done'' \<notin> set (butlast ws)"
  by (induction ws rule: chain.induct) (auto simp add: lifecycle_def)

lemma run_from_startup:
  assumes "populate ts \<lparr>task_state = [], tasks = [], events = []\<rparr> = Inr w0"
    and "distinct (map cfg_name ts)"
  shows "name_ok n (world_of (run d xs w0))"
proof -
  from populate_inv [OF assms(1) inv_empty assms(2)] have "consistent w0" by simp
  from run_inv [OF this, of d xs] show ?thesis by (simp add: consistent_def)
qed

lemma demo_startup:
  "populate [demo_entry] \<lparr>task_state = [], tasks = [], events = []\<rparr> = Inr demo_world"
  by (simp add: register_def demo_entry_def demo_spec_def demo_world_def set_state_def put_def)

lemma trained_job:
  "mc_pilco_polopt ''ready'' demo_ext ''cartpole'' trained_spec ready_world =
     (None, trained_spec\<lparr>policy := \<lparr>has_params = True, params = [8]\<rparr>\<rparr>,
      \<lparr>task_state = [(''cartpole'', ''done'')],
       tasks = [(''cartpole'', trained_spec\<lparr>policy := \<lparr>has_params = True, params = [8]\<rparr>\<rparr>)],
       events = [Trained ''cartpole'', Wrote ''cartpole'' ''update_polopt'',
                 Minimized ''cartpole'', Wrote ''cartpole'' ''ready'',
                 Wrote ''cartpole'' ''done'', Put ''cartpole'']\<rparr>)"
  by (simp add: job_defs trained_spec_def ready_world_def demo_ext_def n_polopt_iters_def)

text \<open>
  C1, as the claim states it, fails: the local job that writes \<^verbatim>\<open>'done'\<close> goes on to
  line 149 and puts the task on the queue.
\<close>

theorem done_task_is_put_back:
  "map_of (task_state (snd (snd
      (mc_pilco_polopt ''ready'' demo_ext ''cartpole'' trained_spec ready_world))))
      ''cartpole'' = Some ''done'' \<and>
   map fst (tasks (snd (snd
      (mc_pilco_polopt ''ready'' demo_ext ''cartpole'' trained_spec ready_world)))) =
      [''cartpole'']"
  by (simp add: trained_job)

text \<open>
  C1, amended. In every run of the loop body after startup, the values written to the
  recorded state of a task start with \<^verbatim>\<open>'init'\<close> and follow the steps of
  \<open>lifecycle\<close>; nothing is written after \<^verbatim>\<open>'done'\<close>, and \<^verbatim>\<open>'compile_polopt'\<close> is
  written at most once. When the scheduler dequeues a task recorded as \<^verbatim>\<open>'done'\<close>, it
  changes nothing, collects no episode, starts no job and does not put the task back.
\<close>

theorem state_path:
  assumes "populate ts \<lparr>task_state = [], tasks = [], events = []\<rparr> = Inr w0"
    and "distinct (map cfg_name ts)"
  shows "(writes n (events (world_of (run d xs w0))) = [] \<or>
          hd (writes n (events (world_of (run d xs w0)))) = ''init'') \<and>
         chain (writes n (events (world_of (run d xs w0)))) \<and>
         ''done'' \<notin> set (butlast (writes n (events (world_of (run d xs w0))))) \<and>
         count_list (writes n (events (world_of (run d xs w0)))) ''compile_polopt'' \<le> 1 \<and>
         (tasks w = (m, sp) # q \<and> map_of (task_state w) m = Some ''done'' \<longrightarrow>
            step d x w = Continue (w\<lparr>tasks := q\<rparr>))"
proof -
  from run_from_startup [OF assms, of n d xs]
  have ok: "name_ok n (world_of (run d xs w0))" .
  then have c: "chain (writes n (events (world_of (run d xs w0))))"
    by (simp add: name_ok_def)
  have s: "tasks w = (m, sp) # q \<and> map_of (task_state w) m = Some ''done'' \<longrightarrow>
            step d x w = Continue (w\<lparr>tasks := q\<rparr>)"
    by (simp add: step_def body_def cycle_def)
  from ok chain_done_last [OF c] s show ?thesis by (simp add: name_ok_def)
qed

theorem state_path_witness:
  "(writes ''cartpole'' (events (world_of
       (run None [demo_ext, demo_ext, demo_ext, demo_ext, demo_ext] demo_world))) = [] \<or>
    hd (writes ''cartpole'' (events (world_of
       (run None [demo_ext, demo_ext, demo_ext, demo_ext, demo_ext] demo_world)))) = ''init'') \<and>
   chain (writes ''cartpole'' (events (world_of
       (run None [demo_ext, demo_ext, demo_ext, demo_ext, demo_ext] demo_world)))) \<and>
   ''done'' \<notin> set (butlast (writes ''cartpole'' (events (world_of
       (run None [demo_ext, demo_ext, demo_ext, demo_ext, demo_ext] demo_world))))) \<and>
   count_list (writes ''cartpole'' (events (world_of
       (run None [demo_ext, demo_ext, demo_ext, demo_ext, demo_ext] demo_world))))
     ''compile_polopt'' \<le> 1 \<and>
   step None demo_ext
     \<lparr>task_state = [(''cartpole'', ''done'')], tasks = [(''cartpole'', trained_spec)],
      events = []\<rparr> =
   Continue \<lparr>task_state = [(''cartpole'', ''done'')], tasks = [], events = []\<rparr>"
proof -
  have d: "distinct (map cfg_name [demo_entry])" by simp
  from state_path [OF demo_startup d, where n = "''cartpole''" and d = None
      and xs = "[demo_ext, demo_ext, demo_ext, demo_ext, demo_ext]"
      and w = "\<lparr>task_state = [(''cartpole'', ''done'')],
        tasks = [(''cartpole'', trained_spec)], events = []\<rparr>"
      and m = "''cartpole''" and sp = trained_spec and q = "[]" and x = demo_ext]
  show ?thesis by simp
qed






subsection \<open>Startup with an existing output directory\<close>

lemmas fs_defs = init_output_dir_def mkdir_def stat_def rename_def moved_def touch_def
  empty_dir_def below_def parent_ok_def resolve_def dirname_def all_slashes_def
  rstrip_slash_def demo_fs_def Let_def

text \<open>
  C9. A fresh startup with the output directory \<^verbatim>\<open>/data/robot_learning\<close> of
  \<^verbatim>\<open>default_config\<close>, which exists: the directory is not renamed to its own name with
  the change time appended. \<^verbatim>\<open>os.path.dirname\<close> of a path that does not end with a
  slash is the parent, so the old results become \<^verbatim>\<open>/data_1541116800.25\<close>, a
  directory of the root named after \<^verbatim>\<open>/data\<close>. The output directory is then created
  again, empty.
\<close>

theorem old_results_renamed_after_parent:
  "init_output_dir False ''1541203200.0'' ''1541203200.1'' ''1541203200.2''
     ''/data/robot_learning'' demo_fs =
   Inr [(''/'', \<lparr>st_ctime = ''1541203200.1'', files = []\<rparr>),
        (''/data'', \<lparr>st_ctime = ''1541203200.2'', files = []\<rparr>),
        (''/data_1541116800.25'', \<lparr>st_ctime = ''1541203200.1'', files = [''cartpole.zip'']\<rparr>),
        (''/data_1541116800.25/plots'',
           \<lparr>st_ctime = ''1541116900.0'', files = [''cost.png'']\<rparr>),
        (''/data/robot_learning'', \<lparr>st_ctime = ''1541203200.2'', files = []\<rparr>)]"
  by (simp add: fs_defs)

text \<open>
  Only when the configured path ends with a slash does the old directory keep its own
  name in front of the suffix.
\<close>

lemma old_results_with_trailing_slash:
  "init_output_dir False ''1541203200.0'' ''1541203200.1'' ''1541203200.2''
     ''/data/robot_learning/'' demo_fs =
   Inr [(''/'', \<lparr>st_ctime = ''1540944000.0'', files = []\<rparr>),
        (''/data'', \<lparr>st_ctime = ''1541203200.2'', files = []\<rparr>),
        (''/data/robot_learning_1541116800.25'',
           \<lparr>st_ctime = ''1541203200.1'', files = [''cartpole.zip'']\<rparr>),
        (''/data/robot_learning_1541116800.25/plots'',
           \<lparr>st_ctime = ''1541116900.0'', files = [''cost.png'']\<rparr>),
        (''/data/robot_learning'', \<lparr>st_ctime = ''1541203200.2'', files = []\<rparr>)]"
  by (simp add: fs_defs)

text \<open>When the new name is taken by a directory that is not empty, startup ends with the error.\<close>

lemma old_results_target_taken:
  "init_output_dir False ''1541203200.0'' ''1541203200.1'' ''1541203200.2''
     ''/data/robot_learning''
     (demo_fs @ [(''/data_1541116800.25'', \<lparr>st_ctime = ''1541120000.0'', files = [''old.zip'']\<rparr>)]) =
   Inl (OSError ''ENOTEMPTY'')"
  by (simp add: fs_defs)

text \<open>When experience is to be loaded the existing directory is left as it is.\<close>

lemma resumed_startup_keeps_directory:
  "init_output_dir True ''1541203200.0'' ''1541203200.1'' ''1541203200.2''
     ''/data/robot_learning'' demo_fs = Inr demo_fs"
  by (simp add: fs_defs)

end
